theory Spec2Isabelle
  imports Complex_Main "HOL-Library.Log_Nat"
begin

section \<open>The todo controller (todo.controller.ts)\<close>

text \<open>
  The controller keeps two module-level variables, the array \<open>todos\<close> and the counter
  \<open>nextId\<close>, and five handlers read and write them. The model passes the two
  variables as a record and every handler returns its result together with the new
  record. A thrown exception is the left summand of the result; the variables keep
  whatever was written before the throw.

  Numbers. The identifiers are produced by \<open>nextId++\<close> from the seed 4 and are
  integers; the model takes them and the counter as \<open>int\<close>, and the counter is
  taken to stay below \<open>2 ^ 53\<close>, where \<open>nextId++\<close> is exact. \<open>Number(id)\<close> is the
  binary64 value of the string: the mathematical value of the string numeric
  literal, rounded to the nearest binary64 value.

  Strings are lists of code units; the model has the code units below 256.

  Names are those of the source. The field \<open>id\<close> and the method \<open>splice\<close> carry
  a prime, \<open>id'\<close> and \<open>splice'\<close>, because HOL has constants of these names.
\<close>

subsection \<open>Data\<close>

record TodoItem =
  id' :: int
  description :: string
  isDone :: bool

text \<open>A field that is \<open>undefined\<close> (or absent) in a request body is \<open>None\<close>.\<close>

record CreateTodoDto =
  c_description :: "string option"

record UpdateTodoDto =
  u_description :: "string option"
  u_isDone :: "bool option"

record store =
  todos :: "TodoItem list"
  nextId :: int

definition initial_store :: store where
  "initial_store =
     \<lparr>todos =
        [\<lparr>id' = 1, description = ''Buy groceries'', isDone = False\<rparr>,
         \<lparr>id' = 2, description = ''Finish NestJS project'', isDone = False\<rparr>,
         \<lparr>id' = 3, description = ''Walk the dog'', isDone = True\<rparr>],
      nextId = 4\<rparr>"

datatype exn = BadRequestException string | TypeError

subsection \<open>The value of \<open>Number(id)\<close> on a string\<close>

text \<open>
  A JavaScript number is a binary64 value: \<open>NaN\<close>, an infinity, or a finite value,
  kept here as the rational it denotes. The two zeros are one value, as they are
  for \<open>===\<close>.
\<close>

datatype jsnumber = NaN | PosInfinity | NegInfinity | Fin rat

definition negate :: "jsnumber \<Rightarrow> jsnumber" where
  "negate x =
     (case x of
        NaN \<Rightarrow> NaN
      | PosInfinity \<Rightarrow> NegInfinity
      | NegInfinity \<Rightarrow> PosInfinity
      | Fin q \<Rightarrow> Fin (- q))"

text \<open>
  Rounding a rational to binary64, to the nearest value and to the even significand
  at a tie. For \<open>q > 0\<close>, \<open>floorLog2 q\<close> is the \<open>e\<close> with \<open>2 ^ e \<le> q < 2 ^ (e + 1)\<close>;
  \<open>bitlen\<close> of the numerator and of the denominator gives it up to one. The values
  of that binade are the multiples of \<open>2 ^ (e - 52)\<close>, and the binades below
  \<open>2 ^ (- 1022)\<close> share the spacing \<open>2 ^ (- 1074)\<close> (the subnormal values, and zero).
  A result of \<open>2 ^ 1024\<close> is the overflow to \<open>Infinity\<close>.
\<close>

definition floorLog2 :: "rat \<Rightarrow> int" where
  "floorLog2 q =
     (let (a, b) = quotient_of q;
          d = bitlen a - bitlen b
      in if 2 powi d \<le> q then d else d - 1)"

definition roundHalfEven :: "rat \<Rightarrow> int" where
  "roundHalfEven q =
     (let f = \<lfloor>q\<rfloor>; r = q - of_int f
      in if r < 1 / 2 then f
         else if 1 / 2 < r then f + 1
         else if even f then f else f + 1)"

definition roundPositive :: "rat \<Rightarrow> jsnumber" where
  "roundPositive q =
     (let e = max (floorLog2 q) (- 1022);
          ulp = 2 powi (e - 52);
          v = of_int (roundHalfEven (q / ulp)) * ulp
      in if 2 powi 1024 \<le> v then PosInfinity else Fin v)"

definition toBinary64 :: "rat \<Rightarrow> jsnumber" where
  "toBinary64 q =
     (if q = 0 then Fin 0
      else if 0 < q then roundPositive q
      else negate (roundPositive (- q)))"

text \<open>
  \<open>StringToNumber\<close>: white space is trimmed, the empty string is 0, and the rest is
  a \<open>StrNumericLiteral\<close>, whose mathematical value is rounded, or the result is
  \<open>NaN\<close>. (For a literal of more than 20 significant digits ECMAScript lets the
  implementation round one of two decimal neighbours of the value instead; the
  value itself is rounded here.)
\<close>

definition isWhiteSpace :: "char \<Rightarrow> bool" where
  "isWhiteSpace c \<longleftrightarrow>
     (of_char c :: nat) \<in> {9, 10, 11, 12, 13, 32, 160}"

definition trim :: "string \<Rightarrow> string" where
  "trim s = rev (dropWhile isWhiteSpace (rev (dropWhile isWhiteSpace s)))"

definition digitValue :: "char \<Rightarrow> int option" where
  "digitValue c =
     (let n = (of_char c :: int) in
      if 48 \<le> n \<and> n \<le> 57 then Some (n - 48)
      else if 97 \<le> n \<and> n \<le> 102 then Some (n - 87)
      else if 65 \<le> n \<and> n \<le> 70 then Some (n - 55)
      else None)"

definition isDigitOf :: "int \<Rightarrow> char \<Rightarrow> bool" where
  "isDigitOf base c =
     (case digitValue c of None \<Rightarrow> False | Some d \<Rightarrow> d < base)"

definition digitsValue :: "int \<Rightarrow> string \<Rightarrow> int" where
  "digitsValue base ds = foldl (\<lambda>a c. base * a + (case digitValue c of None \<Rightarrow> 0 | Some d \<Rightarrow> d)) 0 ds"

definition allDigits :: "int \<Rightarrow> string \<Rightarrow> bool" where
  "allDigits base ds \<longleftrightarrow> ds \<noteq> [] \<and> list_all (isDigitOf base) ds"

text \<open>\<open>ExponentPart\<close>: the text after the \<open>e\<close> or \<open>E\<close>, a signed integer.\<close>

definition exponentValue :: "string \<Rightarrow> int option" where
  "exponentValue s =
     (case s of
        [] \<Rightarrow> None
      | c # ds \<Rightarrow>
          if c = CHR ''+'' then (if allDigits 10 ds then Some (digitsValue 10 ds) else None)
          else if c = CHR ''-'' then (if allDigits 10 ds then Some (- digitsValue 10 ds) else None)
          else if allDigits 10 s then Some (digitsValue 10 s) else None)"

definition scale10 :: "rat \<Rightarrow> int \<Rightarrow> rat" where
  "scale10 q e = (if 0 \<le> e then q * 10 ^ nat e else q / 10 ^ nat (- e))"

text \<open>
  \<open>StrUnsignedDecimalLiteral\<close>: \<open>Infinity\<close>, or digits with an optional fraction and
  an optional exponent; at least one digit before or after the point.
\<close>

definition unsignedDecimal :: "string \<Rightarrow> jsnumber" where
  "unsignedDecimal s =
     (if s = ''Infinity'' then PosInfinity
      else
        let ip = takeWhile (isDigitOf 10) s;
            r1 = dropWhile (isDigitOf 10) s;
            dot = (r1 \<noteq> [] \<and> hd r1 = CHR ''.'');
            r2 = (if dot then tl r1 else r1);
            fp = (if dot then takeWhile (isDigitOf 10) r2 else []);
            r3 = (if dot then dropWhile (isDigitOf 10) r2 else r2);
            mv = rat_of_int (digitsValue 10 ip)
                   + rat_of_int (digitsValue 10 fp) / 10 ^ length fp
        in
        if ip = [] \<and> fp = [] then NaN
        else if r3 = [] then toBinary64 mv
        else if hd r3 = CHR ''e'' \<or> hd r3 = CHR ''E'' then
          (case exponentValue (tl r3) of
             None \<Rightarrow> NaN
           | Some e \<Rightarrow> toBinary64 (scale10 mv e))
        else NaN)"

text \<open>\<open>NonDecimalIntegerLiteral\<close>: \<open>0x\<close>, \<open>0o\<close> or \<open>0b\<close> and digits of that base.\<close>

definition nonDecimalBase :: "string \<Rightarrow> int option" where
  "nonDecimalBase s =
     (case s of
        c0 # c1 # _ \<Rightarrow>
          if c0 \<noteq> CHR ''0'' then None
          else if c1 = CHR ''x'' \<or> c1 = CHR ''X'' then Some 16
          else if c1 = CHR ''o'' \<or> c1 = CHR ''O'' then Some 8
          else if c1 = CHR ''b'' \<or> c1 = CHR ''B'' then Some 2
          else None
      | _ \<Rightarrow> None)"

definition Number :: "string \<Rightarrow> jsnumber" where
  "Number str =
     (let s = trim str in
      if s = [] then Fin 0
      else
        case nonDecimalBase s of
          Some b \<Rightarrow>
            (let ds = drop 2 s in
             if allDigits b ds then toBinary64 (rat_of_int (digitsValue b ds)) else NaN)
        | None \<Rightarrow>
            if hd s = CHR ''+'' then unsignedDecimal (tl s)
            else if hd s = CHR ''-'' then negate (unsignedDecimal (tl s))
            else unsignedDecimal s)"

text \<open>\<open>t.id === todoId\<close>: \<open>NaN\<close> and the infinities equal no identifier.\<close>

definition idEquals :: "jsnumber \<Rightarrow> TodoItem \<Rightarrow> bool" where
  "idEquals todoId t \<longleftrightarrow> todoId = Fin (rat_of_int (id' t))"

subsection \<open>The array methods the handlers call\<close>

text \<open>\<open>Array.prototype.findIndex\<close>: the first index whose element passes, or \<open>-1\<close>.\<close>

fun findIndex :: "('a \<Rightarrow> bool) \<Rightarrow> 'a list \<Rightarrow> int" where
  "findIndex p [] = - 1"
| "findIndex p (x # xs) =
     (if p x then 0
      else (let r = findIndex p xs in if r = - 1 then - 1 else r + 1))"

text \<open>
  \<open>Array.prototype.splice(start, deleteCount)\<close> with no inserted items: a negative
  \<open>start\<close> counts from the end, and both arguments are clamped to the array.
\<close>

definition splice' :: "int \<Rightarrow> int \<Rightarrow> 'a list \<Rightarrow> 'a list" where
  "splice' start deleteCount xs =
     (let len = int (length xs);
          actualStart = (if start < 0 then max (len + start) 0 else min start len);
          actualDeleteCount = min (max deleteCount 0) (len - actualStart)
      in take (nat actualStart) xs @ drop (nat (actualStart + actualDeleteCount)) xs)"

subsection \<open>The handlers\<close>

definition getAllTodos :: "store \<Rightarrow> TodoItem list" where
  "getAllTodos s = todos s"

text \<open>\<open>null\<close> is \<open>None\<close>.\<close>

definition getTodoById :: "store \<Rightarrow> string \<Rightarrow> TodoItem option" where
  "getTodoById s ident =
     (let todoId = Number ident in
      case find (idEquals todoId) (todos s) of
        None \<Rightarrow> None
      | Some todo \<Rightarrow> Some todo)"

text \<open>
  \<open>!createTodoDto || !createTodoDto.description\<close>: the body is missing, or the
  description is undefined or the empty string.
\<close>

definition createTodo :: "store \<Rightarrow> CreateTodoDto option \<Rightarrow> (exn + TodoItem) \<times> store" where
  "createTodo s createTodoDto =
     (case createTodoDto of
        None \<Rightarrow> (Inl (BadRequestException ''Description cannot be empty''), s)
      | Some dto \<Rightarrow>
          (case c_description dto of
             None \<Rightarrow> (Inl (BadRequestException ''Description cannot be empty''), s)
           | Some d \<Rightarrow>
               if d = [] then (Inl (BadRequestException ''Description cannot be empty''), s)
               else
                 let newTodo = \<lparr>id' = nextId s, description = d, isDone = False\<rparr>
                 in (Inr newTodo,
                     s\<lparr>todos := todos s @ [newTodo], nextId := nextId s + 1\<rparr>)))"

text \<open>
  \<open>existingTodo.isDone = true\<close> is executed before \<open>updateTodoDto.description\<close> is
  read, so a missing body throws the \<open>TypeError\<close> after the write.
\<close>

definition updateTodo ::
  "store \<Rightarrow> string \<Rightarrow> UpdateTodoDto option \<Rightarrow> (exn + TodoItem option) \<times> store" where
  "updateTodo s ident updateTodoDto =
     (let todoId = Number ident;
          todoIndex = findIndex (idEquals todoId) (todos s)
      in
      if todoIndex = - 1 then (Inr None, s)
      else
        let i = nat todoIndex;
            existingTodo = (todos s ! i)\<lparr>isDone := True\<rparr>
        in
        case updateTodoDto of
          None \<Rightarrow> (Inl TypeError, s\<lparr>todos := (todos s)[i := existingTodo]\<rparr>)
        | Some dto \<Rightarrow>
            let existingTodo' =
                  (case u_description dto of
                     None \<Rightarrow> existingTodo
                   | Some d \<Rightarrow> existingTodo\<lparr>description := d\<rparr>)
            in (Inr (Some existingTodo'), s\<lparr>todos := (todos s)[i := existingTodo']\<rparr>))"

definition deleteTodo :: "store \<Rightarrow> string \<Rightarrow> string \<times> store" where
  "deleteTodo s ident =
     (let todoId = Number ident;
          todoIndex = findIndex (idEquals todoId) (todos s)
      in (''Todo with ID '' @ ident @ '' successfully deleted.'',
          s\<lparr>todos := splice' todoIndex 1 (todos s)\<rparr>))"

subsection \<open>Sequences of requests\<close>

text \<open>
  The framework calls one handler per request, and the module-level variables
  live on between the calls. A request that ends in an exception leaves the process
  running with the variables as the handler left them.
\<close>

datatype request =
    GetAllTodos
  | GetTodoById string
  | CreateTodo "CreateTodoDto option"
  | UpdateTodo string "UpdateTodoDto option"
  | DeleteTodo string

fun handle :: "store \<Rightarrow> request \<Rightarrow> store" where
  "handle s GetAllTodos = s"
| "handle s (GetTodoById ident) = s"
| "handle s (CreateTodo dto) = snd (createTodo s dto)"
| "handle s (UpdateTodo ident dto) = snd (updateTodo s ident dto)"
| "handle s (DeleteTodo ident) = snd (deleteTodo s ident)"

text \<open>The identifier a request hands out: that of the record a successful create returns.\<close>

fun createdId :: "store \<Rightarrow> request \<Rightarrow> int list" where
  "createdId s (CreateTodo dto) =
     (case fst (createTodo s dto) of Inl _ \<Rightarrow> [] | Inr t \<Rightarrow> [id' t])"
| "createdId s _ = []"

fun run :: "store \<Rightarrow> request list \<Rightarrow> store" where
  "run s [] = s"
| "run s (r # rs) = run (handle s r) rs"

fun createdIds :: "store \<Rightarrow> request list \<Rightarrow> int list" where
  "createdIds s [] = []"
| "createdIds s (r # rs) = createdId s r @ createdIds (handle s r) rs"

section \<open>Lemmas\<close>

subsection \<open>Facts about the array methods\<close>

lemma findIndex_none: "findIndex p xs = - 1 \<longleftrightarrow> (\<forall>x\<in>set xs. \<not> p x)"
proof (induction xs)
  case Nil
  show ?case by simp
next
  case (Cons x xs)
  have nonneg: "\<And>ys. findIndex p ys = - 1 \<or> 0 \<le> findIndex p ys"
  proof -
    fix ys show "findIndex p ys = - 1 \<or> 0 \<le> findIndex p ys"
      by (induction ys) (auto simp: Let_def)
  qed
  from nonneg[of xs] Cons show ?case by (auto simp: Let_def)
qed

lemma findIndex_found:
  "findIndex p xs \<noteq> - 1 \<Longrightarrow>
     0 \<le> findIndex p xs \<and> nat (findIndex p xs) < length xs \<and> p (xs ! nat (findIndex p xs))
     \<and> (\<forall>j < nat (findIndex p xs). \<not> p (xs ! j))"
proof (induction xs)
  case Nil
  then show ?case by simp
next
  case (Cons x xs)
  show ?case
  proof (cases "p x")
    case True
    then show ?thesis by simp
  next
    case False
    with Cons.prems have ne: "findIndex p xs \<noteq> - 1" by (auto simp: Let_def)
    from Cons.IH[OF ne] have ih: "0 \<le> findIndex p xs" "nat (findIndex p xs) < length xs"
      "p (xs ! nat (findIndex p xs))" "\<forall>j < nat (findIndex p xs). \<not> p (xs ! j)" by auto
    have eq: "findIndex p (x # xs) = findIndex p xs + 1" using False ne by (simp add: Let_def)
    have n: "nat (findIndex p xs + 1) = Suc (nat (findIndex p xs))" using ih(1) by simp
    show ?thesis unfolding eq n using ih False by (auto simp: nth_Cons split: nat.splits)
  qed
qed

lemma splice_unfold:
  "splice' a b xs =
     take (nat (if a < 0 then max (int (length xs) + a) 0 else min a (int (length xs)))) xs
     @ drop (nat ((if a < 0 then max (int (length xs) + a) 0 else min a (int (length xs)))
          + min (max b 0) (int (length xs)
              - (if a < 0 then max (int (length xs) + a) 0 else min a (int (length xs)))))) xs"
  unfolding splice'_def Let_def by (rule refl)

lemma splice_minus_one: "splice' (- 1) 1 xs = butlast xs"
proof (cases xs rule: rev_cases)
  case Nil
  then show ?thesis unfolding splice_unfold by simp
next
  case (snoc ys y)
  have a: "max (int (length xs) + - 1) 0 = int (length ys)" using snoc by simp
  have b: "min (max 1 0) (int (length xs) - int (length ys)) = (1::int)" using snoc by simp
  show ?thesis unfolding splice_unfold using snoc by (simp only: a b) simp
qed

lemma splice_take_drop: "\<exists>n m. n \<le> m \<and> splice' a b xs = take n xs @ drop m xs"
proof -
  define len where "len = int (length xs)"
  define st where "st = (if a < 0 then max (len + a) 0 else min a len)"
  define dc where "dc = min (max b 0) (len - st)"
  have l0: "0 \<le> len" by (simp add: len_def)
  have st: "0 \<le> st" "st \<le> len" using l0 by (simp_all add: st_def)
  have dc: "0 \<le> dc" using st by (simp add: dc_def)
  have "splice' a b xs = take (nat st) xs @ drop (nat (st + dc)) xs"
    unfolding splice_unfold len_def st_def dc_def by (rule refl)
  moreover have "nat st \<le> nat (st + dc)" using dc by simp
  ultimately show ?thesis by blast
qed

lemma distinct_take_drop:
  assumes "distinct ys" "n \<le> m"
  shows "distinct (take n ys @ drop m ys)"
proof -
  have "set (drop m ys) \<subseteq> set (drop n ys)" using assms(2) by (rule set_drop_subset_set_drop)
  moreover have "set (take n ys) \<inter> set (drop n ys) = {}"
    using assms(1) by (simp add: set_take_disj_set_drop_if_distinct)
  ultimately have "set (take n ys) \<inter> set (drop m ys) = {}" by blast
  with assms(1) show ?thesis by simp
qed

lemma splice_subset: "set (splice' a b xs) \<subseteq> set xs"
proof -
  obtain n m where "splice' a b xs = take n xs @ drop m xs" using splice_take_drop by blast
  then show ?thesis using set_take_subset[of n xs] set_drop_subset[of m xs] by auto
qed

lemma splice_distinct_map:
  assumes "distinct (map f xs)"
  shows "distinct (map f (splice' a b xs))"
proof -
  obtain n m where nm: "n \<le> m" "splice' a b xs = take n xs @ drop m xs"
    using splice_take_drop by blast
  have "map f (splice' a b xs) = take n (map f xs) @ drop m (map f xs)"
    by (simp add: nm(2) take_map drop_map)
  then show ?thesis using distinct_take_drop[OF assms nm(1)] by simp
qed

subsection \<open>Facts about the handlers\<close>

lemma idEquals_iff: "idEquals (Fin (rat_of_int k)) t \<longleftrightarrow> id' t = k"
  by (auto simp: idEquals_def)

lemma nextId_updateTodo: "nextId (snd (updateTodo s ident dto)) = nextId s"
  by (simp add: updateTodo_def Let_def split: option.splits)

lemma ids_updateTodo: "map id' (todos (snd (updateTodo s ident dto))) = map id' (todos s)"
proof (cases "findIndex (idEquals (Number ident)) (todos s) = - 1")
  case True
  then show ?thesis by (simp add: updateTodo_def Let_def)
next
  case False
  define i where "i = nat (findIndex (idEquals (Number ident)) (todos s))"
  from findIndex_found[OF False] have i: "i < length (todos s)" by (simp add: i_def)
  have keep: "\<And>x. id' x = id' (todos s ! i) \<Longrightarrow> map id' ((todos s)[i := x]) = map id' (todos s)"
  proof -
    fix x :: TodoItem
    assume "id' x = id' (todos s ! i)"
    then have "map id' ((todos s)[i := x]) = (map id' (todos s))[i := map id' (todos s) ! i]"
      using i by (simp add: map_update)
    then show "map id' ((todos s)[i := x]) = map id' (todos s)" by simp
  qed
  show ?thesis
    using False by (simp add: updateTodo_def Let_def i_def[symmetric] keep split: option.splits)
qed

lemma nextId_deleteTodo: "nextId (snd (deleteTodo s ident)) = nextId s"
  by (simp add: deleteTodo_def Let_def)

lemma todos_deleteTodo:
  "todos (snd (deleteTodo s ident)) = splice' (findIndex (idEquals (Number ident)) (todos s)) 1 (todos s)"
  by (simp add: deleteTodo_def Let_def)

lemma createTodo_cases:
  "(fst (createTodo s dto) = Inl (BadRequestException ''Description cannot be empty'')
      \<and> snd (createTodo s dto) = s)
   \<or> (\<exists>d. d \<noteq> [] \<and> fst (createTodo s dto) = Inr \<lparr>id' = nextId s, description = d, isDone = False\<rparr>
      \<and> snd (createTodo s dto)
          = s\<lparr>todos := todos s @ [\<lparr>id' = nextId s, description = d, isDone = False\<rparr>],
               nextId := nextId s + 1\<rparr>)"
  by (simp add: createTodo_def Let_def split: option.splits)

lemma nextId_handle: "nextId s \<le> nextId (handle s r)"
proof (cases r)
  case (CreateTodo dto)
  then show ?thesis using createTodo_cases[of s dto] by auto
qed (simp_all add: nextId_updateTodo nextId_deleteTodo)

lemma createdId_handle:
  "k \<in> set (createdId s r) \<Longrightarrow> k = nextId s \<and> nextId (handle s r) = nextId s + 1"
proof (cases r)
  case (CreateTodo dto)
  assume "k \<in> set (createdId s r)"
  then show ?thesis using CreateTodo createTodo_cases[of s dto] by auto
qed simp_all

lemma ids_handle:
  "set (map id' (todos (handle s r))) \<subseteq> set (map id' (todos s)) \<union> set (createdId s r)"
proof (cases r)
  case (CreateTodo dto)
  then show ?thesis using createTodo_cases[of s dto] by auto
next
  case (UpdateTodo ident dto)
  then show ?thesis by (simp add: ids_updateTodo)
next
  case (DeleteTodo ident)
  then show ?thesis using splice_subset[of _ 1 "todos s"] by (auto simp: todos_deleteTodo)
qed simp_all

lemma below_handle:
  assumes "\<forall>t\<in>set (todos s). id' t < nextId s"
  shows "\<forall>t\<in>set (todos (handle s r)). id' t < nextId (handle s r)"
proof
  fix t assume "t \<in> set (todos (handle s r))"
  then have "id' t \<in> set (map id' (todos s)) \<union> set (createdId s r)"
    using ids_handle[of s r] by auto
  then show "id' t < nextId (handle s r)"
  proof
    assume "id' t \<in> set (map id' (todos s))"
    then have "id' t < nextId s" using assms by auto
    then show ?thesis using nextId_handle[of s r] by simp
  next
    assume "id' t \<in> set (createdId s r)"
    from createdId_handle[OF this] show ?thesis by simp
  qed
qed

lemma distinct_handle:
  assumes "\<forall>t\<in>set (todos s). id' t < nextId s" and "distinct (map id' (todos s))"
  shows "distinct (map id' (todos (handle s r)))"
proof (cases r)
  case (CreateTodo dto)
  have "nextId s \<notin> id' ` set (todos s)" using assms(1) by auto
  then show ?thesis using CreateTodo createTodo_cases[of s dto] assms(2) by auto
next
  case (UpdateTodo ident dto)
  then show ?thesis using assms(2) by (simp add: ids_updateTodo)
next
  case (DeleteTodo ident)
  then show ?thesis using splice_distinct_map[OF assms(2)] by (simp add: todos_deleteTodo)
qed (simp_all add: assms(2))

lemma run_append: "run s (rs @ rs') = run (run s rs) rs'"
  by (induction rs arbitrary: s) simp_all

lemma createdIds_append: "createdIds s (rs @ rs') = createdIds s rs @ createdIds (run s rs) rs'"
  by (induction rs arbitrary: s) simp_all

lemma nextId_run: "nextId s \<le> nextId (run s rs)"
proof (induction rs arbitrary: s)
  case Nil
  show ?case by simp
next
  case (Cons r rs)
  have "nextId s \<le> nextId (handle s r)" by (rule nextId_handle)
  also have "\<dots> \<le> nextId (run (handle s r) rs)" by (rule Cons.IH)
  finally show ?case by simp
qed

lemma createdIds_bounds:
  "k \<in> set (createdIds s rs) \<Longrightarrow> nextId s \<le> k \<and> k < nextId (run s rs)"
proof (induction rs arbitrary: s)
  case Nil
  then show ?case by simp
next
  case (Cons r rs)
  from Cons.prems have "k \<in> set (createdId s r) \<or> k \<in> set (createdIds (handle s r) rs)"
    by simp
  then show ?case
  proof
    assume "k \<in> set (createdId s r)"
    from createdId_handle[OF this] nextId_run[of "handle s r" rs] show ?thesis by simp
  next
    assume "k \<in> set (createdIds (handle s r) rs)"
    from Cons.IH[OF this] nextId_handle[of s r] show ?thesis by simp
  qed
qed

lemma createdIds_sorted: "sorted_wrt (<) (createdIds s rs)"
proof (induction rs arbitrary: s)
  case Nil
  show ?case by simp
next
  case (Cons r rs)
  have one: "sorted_wrt (<) (createdId s r)"
    by (cases r) (simp_all split: sum.splits)
  have "\<forall>x\<in>set (createdId s r). \<forall>y\<in>set (createdIds (handle s r) rs). x < y"
  proof (intro ballI)
    fix x y
    assume "x \<in> set (createdId s r)" "y \<in> set (createdIds (handle s r) rs)"
    from createdId_handle[OF this(1)] createdIds_bounds[OF this(2)] show "x < y" by simp
  qed
  with one Cons.IH[of "handle s r"] show ?case by (simp add: sorted_wrt_append)
qed

lemma run_invariant:
  assumes "\<forall>t\<in>set (todos s). id' t < nextId s" and "distinct (map id' (todos s))"
  shows "(\<forall>t\<in>set (todos (run s rs)). id' t < nextId (run s rs))
         \<and> distinct (map id' (todos (run s rs)))"
  using assms
proof (induction rs arbitrary: s)
  case Nil
  then show ?case by simp
next
  case (Cons r rs)
  have "\<forall>t\<in>set (todos (handle s r)). id' t < nextId (handle s r)"
    using Cons.prems(1) by (rule below_handle)
  moreover have "distinct (map id' (todos (handle s r)))"
    using Cons.prems by (rule distinct_handle)
  ultimately show ?case using Cons.IH[of "handle s r"] by simp
qed

lemma initial_invariant:
  "(\<forall>t\<in>set (todos initial_store). id' t < nextId initial_store)
   \<and> distinct (map id' (todos initial_store))"
  by (simp add: initial_store_def)

lemmas reachable_invariant = run_invariant[OF conjunct1[OF initial_invariant] conjunct2[OF initial_invariant]]

lemma updateTodo_without_description:
  assumes dist: "distinct (map id' (todos s))"
    and mem: "t \<in> set (todos s)"
    and num: "Number ident = Fin (rat_of_int (id' t))"
    and nodesc: "u_description dto = None"
  shows "updateTodo s ident (Some dto)
           = (Inr (Some (t\<lparr>isDone := True\<rparr>)),
              s\<lparr>todos := map (\<lambda>u. if u = t then t\<lparr>isDone := True\<rparr> else u) (todos s)\<rparr>)"
proof -
  let ?p = "idEquals (Number ident)"
  have p: "\<And>u. ?p u \<longleftrightarrow> id' u = id' t" by (simp add: num idEquals_iff)
  have "\<not> (\<forall>x\<in>set (todos s). \<not> ?p x)" using mem p by blast
  then have found: "findIndex ?p (todos s) \<noteq> - 1" by (simp add: findIndex_none)
  define i where "i = nat (findIndex ?p (todos s))"
  from findIndex_found[OF found] have i: "i < length (todos s)" and pi: "?p (todos s ! i)"
    by (simp_all add: i_def)
  have inj: "inj_on id' (set (todos s))" using dist by (simp add: distinct_map)
  have "todos s ! i \<in> set (todos s)" using i by simp
  moreover have "id' (todos s ! i) = id' t" using pi p by simp
  ultimately have at_i: "todos s ! i = t" using inj mem by (auto dest: inj_onD)
  have dist': "distinct (todos s)" using dist by (simp add: distinct_map)
  have upd: "(todos s)[i := t\<lparr>isDone := True\<rparr>]
               = map (\<lambda>u. if u = t then t\<lparr>isDone := True\<rparr> else u) (todos s)"
  proof (rule nth_equalityI)
    show "length ((todos s)[i := t\<lparr>isDone := True\<rparr>])
            = length (map (\<lambda>u. if u = t then t\<lparr>isDone := True\<rparr> else u) (todos s))"
      by simp
  next
    fix j assume "j < length ((todos s)[i := t\<lparr>isDone := True\<rparr>])"
    then have j: "j < length (todos s)" by simp
    show "(todos s)[i := t\<lparr>isDone := True\<rparr>] ! j
            = map (\<lambda>u. if u = t then t\<lparr>isDone := True\<rparr> else u) (todos s) ! j"
    proof (cases "j = i")
      case True
      then show ?thesis using i at_i by simp
    next
      case False
      then have "todos s ! j \<noteq> t"
        using dist' i j at_i by (auto simp: nth_eq_iff_index_eq)
      then show ?thesis using False j by simp
    qed
  qed
  have "updateTodo s ident (Some dto)
          = (Inr (Some (t\<lparr>isDone := True\<rparr>)), s\<lparr>todos := (todos s)[i := t\<lparr>isDone := True\<rparr>]\<rparr>)"
    using found nodesc at_i by (simp add: updateTodo_def Let_def i_def[symmetric])
  then show ?thesis by (simp only: upd)
qed

subsection \<open>Rounding to binary64\<close>

text \<open>
  \<open>floorLog2\<close> is the binary exponent, and an integer of magnitude up to \<open>2 ^ 53\<close>
  is a binary64 value: rounding returns it.
\<close>

lemma quotient_of_pos:
  assumes "0 < q" and "quotient_of q = (a, b)"
  shows "0 < a \<and> 0 < b \<and> q = rat_of_int a / rat_of_int b"
proof -
  have b: "0 < b" using assms(2) by (rule quotient_of_denom_pos)
  have q: "q = rat_of_int a / rat_of_int b" using assms(2) by (rule quotient_of_div)
  have "0 < rat_of_int a / rat_of_int b" using assms(1) q by simp
  then have "0 < rat_of_int a" using b by (simp add: zero_less_divide_iff)
  then show ?thesis using b q by simp
qed

lemma bitlen_powi_bounds:
  assumes "0 < a"
  shows "(2::rat) powi (bitlen a - 1) \<le> rat_of_int a \<and> rat_of_int a < 2 powi bitlen a"
proof -
  have ge1: "1 \<le> bitlen a"
    using assms bitlen_nonneg[of a] bitlen_eq_zero_iff[of a] by linarith
  from bitlen_bounds[OF assms]
  have lo: "(2::int) ^ nat (bitlen a - 1) \<le> a" and hi: "a < 2 ^ nat (bitlen a)" by simp_all
  have "rat_of_int (2 ^ nat (bitlen a - 1)) \<le> rat_of_int a" using lo by (simp only: of_int_le_iff)
  then have lo': "(2::rat) ^ nat (bitlen a - 1) \<le> rat_of_int a" by simp
  have "rat_of_int a < rat_of_int (2 ^ nat (bitlen a))" using hi by (simp only: of_int_less_iff)
  then have hi': "rat_of_int a < 2 ^ nat (bitlen a)" by simp
  show ?thesis using lo' hi' ge1 by (simp add: power_int_def)
qed

lemma powi_less_cancel: "(2::rat) powi m < 2 powi n \<Longrightarrow> m < n"
proof (rule ccontr)
  assume lt: "(2::rat) powi m < 2 powi n" and "\<not> m < n"
  then have "n \<le> m" by simp
  then have "(2::rat) powi n \<le> 2 powi m" by (rule power_int_increasing) simp
  with lt show False by simp
qed

lemma floorLog2_bounds:
  assumes "0 < q"
  shows "2 powi floorLog2 q \<le> q \<and> q < 2 powi (floorLog2 q + 1)"
proof -
  obtain a b where ab: "quotient_of q = (a, b)" by (cases "quotient_of q")
  from quotient_of_pos[OF assms ab]
  have a: "0 < a" and b: "0 < b" and q: "q = rat_of_int a / rat_of_int b" by simp_all
  define d where "d = bitlen a - bitlen b"
  from bitlen_powi_bounds[OF a]
  have a_lo: "(2::rat) powi (bitlen a - 1) \<le> rat_of_int a"
    and a_hi: "rat_of_int a < 2 powi bitlen a" by simp_all
  from bitlen_powi_bounds[OF b]
  have b_lo: "(2::rat) powi (bitlen b - 1) \<le> rat_of_int b"
    and b_hi: "rat_of_int b < 2 powi bitlen b" by simp_all
  have bpos: "0 < rat_of_int b" using b by simp
  have p1: "(0::rat) < 2 powi (bitlen b - 1)" by simp
  have upper: "q < 2 powi (d + 1)"
  proof -
    have "rat_of_int a * 2 powi (bitlen b - 1) < 2 powi bitlen a * rat_of_int b"
    proof -
      have "rat_of_int a * 2 powi (bitlen b - 1) < 2 powi bitlen a * 2 powi (bitlen b - 1)"
        using a_hi p1 by (simp only: mult_strict_right_mono)
      also have "\<dots> \<le> 2 powi bitlen a * rat_of_int b"
        using b_lo by (simp add: mult_left_mono)
      finally show ?thesis .
    qed
    then have "rat_of_int a / rat_of_int b < 2 powi bitlen a / 2 powi (bitlen b - 1)"
      using bpos p1 by (simp add: field_simps)
    also have "\<dots> = 2 powi (bitlen a - (bitlen b - 1))"
      by (simp add: power_int_diff)
    also have "bitlen a - (bitlen b - 1) = d + 1" by (simp add: d_def)
    finally show ?thesis using q by simp
  qed
  have lower: "2 powi (d - 1) \<le> q"
  proof -
    have "2 powi (bitlen a - 1) * rat_of_int b \<le> rat_of_int a * 2 powi bitlen b"
    proof -
      have "2 powi (bitlen a - 1) * rat_of_int b \<le> rat_of_int a * rat_of_int b"
        using a_lo bpos by (simp add: mult_right_mono)
      also have "\<dots> \<le> rat_of_int a * 2 powi bitlen b"
        using b_hi a by (simp add: mult_left_mono)
      finally show ?thesis .
    qed
    then have "2 powi (bitlen a - 1) / 2 powi bitlen b \<le> rat_of_int a / rat_of_int b"
      using bpos by (simp add: field_simps)
    moreover have "(2::rat) powi (bitlen a - 1) / 2 powi bitlen b = 2 powi (bitlen a - 1 - bitlen b)"
      by (simp add: power_int_diff)
    moreover have "bitlen a - 1 - bitlen b = d - 1" by (simp add: d_def)
    ultimately show ?thesis using q by simp
  qed
  have fl: "floorLog2 q = (if 2 powi d \<le> q then d else d - 1)"
    by (simp add: floorLog2_def ab d_def Let_def)
  show ?thesis
  proof (cases "2 powi d \<le> q")
    case True
    then show ?thesis using fl upper by simp
  next
    case False
    then show ?thesis using fl lower by simp
  qed
qed

lemma floorLog2_unique:
  assumes "0 < q" and "2 powi e \<le> q" and "q < 2 powi (e + 1)"
  shows "floorLog2 q = e"
proof -
  from floorLog2_bounds[OF assms(1)]
  have lo: "2 powi floorLog2 q \<le> q" and hi: "q < 2 powi (floorLog2 q + 1)" by simp_all
  have "(2::rat) powi floorLog2 q < 2 powi (e + 1)" using lo assms(3) by simp
  then have "floorLog2 q < e + 1" by (rule powi_less_cancel)
  moreover have "(2::rat) powi e < 2 powi (floorLog2 q + 1)" using assms(2) hi by simp
  then have "e < floorLog2 q + 1" by (rule powi_less_cancel)
  ultimately show ?thesis by simp
qed

lemma roundHalfEven_of_int: "roundHalfEven (rat_of_int n) = n"
  by (simp add: roundHalfEven_def)

lemma roundPositive_of_int:
  assumes "0 < n" and "n \<le> 2 ^ 53"
  shows "roundPositive (rat_of_int n) = Fin (rat_of_int n)"
proof -
  define e where "e = floorLog2 (rat_of_int n)"
  have pos: "0 < rat_of_int n" using assms(1) by simp
  from floorLog2_bounds[OF pos]
  have lo: "2 powi e \<le> rat_of_int n" and hi: "rat_of_int n < 2 powi (e + 1)"
    by (simp_all add: e_def)
  have n53: "rat_of_int n \<le> 2 powi 53"
  proof -
    have "rat_of_int n \<le> rat_of_int (2 ^ 53)" using assms(2) by (simp only: of_int_le_iff)
    then show ?thesis by simp
  qed
  have "(2::rat) powi 0 < 2 powi (e + 1)"
  proof -
    have "(1::rat) \<le> rat_of_int n" using assms(1) by simp
    then show ?thesis using hi by simp
  qed
  then have e0: "0 \<le> e" using powi_less_cancel[of 0 "e + 1"] by simp
  have "(2::rat) powi e < 2 powi 54"
  proof -
    have "(2::rat) powi 53 < 2 powi 54" by (rule power_int_strict_increasing) simp_all
    then show ?thesis using lo n53 by simp
  qed
  then have e53: "e \<le> 53" using powi_less_cancel[of e 54] by simp
  have ex: "\<exists>m. rat_of_int n / 2 powi (e - 52) = rat_of_int m"
  proof (cases "e \<le> 52")
    case True
    have "rat_of_int n / 2 powi (e - 52) = rat_of_int n * 2 powi (52 - e)"
      by (simp add: power_int_diff)
    also have "\<dots> = rat_of_int n * 2 ^ nat (52 - e)"
      using True by (simp add: power_int_def)
    also have "\<dots> = rat_of_int (n * 2 ^ nat (52 - e))" by simp
    finally show ?thesis by blast
  next
    case False
    then have e: "e = 53" using e53 by simp
    then have "rat_of_int n = 2 powi 53" using lo n53 by simp
    then have "rat_of_int n / 2 powi (e - 52) = rat_of_int (2 ^ 52)"
      by (simp add: e)
    then show ?thesis by blast
  qed
  then obtain m where m: "rat_of_int n / 2 powi (e - 52) = rat_of_int m" by blast
  have unscale: "rat_of_int m * 2 powi (e - 52) = rat_of_int n"
  proof -
    have "(2::rat) powi (e - 52) \<noteq> 0" by simp
    then show ?thesis using m by (simp add: field_simps)
  qed
  have small: "\<not> 2 powi 1024 \<le> rat_of_int n"
  proof -
    have "(2::rat) powi 53 < 2 powi 1024" by (rule power_int_strict_increasing) simp_all
    then show ?thesis using n53 by simp
  qed
  have mx: "max e (- 1022) = e" using e0 by simp
  show ?thesis
    unfolding roundPositive_def e_def[symmetric] Let_def mx m roundHalfEven_of_int unscale
    using small by simp
qed

lemma toBinary64_of_int:
  assumes "\<bar>n\<bar> \<le> 2 ^ 53"
  shows "toBinary64 (rat_of_int n) = Fin (rat_of_int n)"
proof -
  consider "n = 0" | "0 < n" | "n < 0" by linarith
  then show ?thesis
  proof cases
    case 1
    then show ?thesis by (simp add: toBinary64_def)
  next
    case 2
    then have "roundPositive (rat_of_int n) = Fin (rat_of_int n)"
      using assms by (intro roundPositive_of_int) simp_all
    then show ?thesis using 2 by (simp add: toBinary64_def)
  next
    case 3
    then have "roundPositive (rat_of_int (- n)) = Fin (rat_of_int (- n))"
      using assms by (intro roundPositive_of_int) simp_all
    then show ?thesis using 3 by (simp add: toBinary64_def negate_def)
  qed
qed

subsection \<open>\<open>Number\<close> at particular strings\<close>

lemma toBinary64_numeral:
  "numeral k \<le> (2::int) ^ 53 \<Longrightarrow> toBinary64 (numeral k) = Fin (numeral k)"
  using toBinary64_of_int[of "numeral k"] by simp

lemma toBinary64_0: "toBinary64 0 = Fin 0"
  by (simp add: toBinary64_def)

lemma toBinary64_1: "toBinary64 1 = Fin 1"
  using toBinary64_of_int[of 1] by simp

lemmas Number_eval =
  Number_def trim_def isWhiteSpace_def nonDecimalBase_def unsignedDecimal_def
  isDigitOf_def digitValue_def digitsValue_def toBinary64_numeral toBinary64_0 toBinary64_1

lemma Number_abc: "Number ''abc'' = NaN"
  by (simp add: Number_eval)

lemma Number_1: "Number ''1'' = Fin 1"
  by (simp add: Number_eval)

lemma Number_2: "Number ''2'' = Fin 2"
  by (simp add: Number_eval)

lemma Number_4: "Number ''4'' = Fin 4"
  by (simp add: Number_eval)

lemma Number_7: "Number ''7'' = Fin 7"
  by (simp add: Number_eval)

lemma Number_99: "Number ''99'' = Fin 99"
  by (simp add: Number_eval)

text \<open>A literal that is no binary64 value: \<open>1.0000000000000000001\<close> is rounded to 1.\<close>

lemma roundHalfEven_below_half:
  assumes "rat_of_int m \<le> q" and "q < rat_of_int m + 1 / 2"
  shows "roundHalfEven q = m"
proof -
  have "\<lfloor>q\<rfloor> = m" using assms by (simp add: floor_unique)
  then show ?thesis using assms by (simp add: roundHalfEven_def Let_def)
qed

lemma toBinary64_just_above_1:
  "toBinary64 (1 + 1 / 10 ^ 19) = Fin 1"
proof -
  let ?q = "1 + 1 / 10 ^ 19 :: rat"
  have pos: "0 < ?q" by simp
  have e: "floorLog2 ?q = 0"
    by (rule floorLog2_unique) simp_all
  have r: "roundHalfEven (?q / 2 powi (- 52)) = 2 ^ 52"
    by (rule roundHalfEven_below_half) (simp_all add: power_int_minus field_simps)
  have small: "\<not> (2::rat) powi 1024 \<le> 1"
  proof -
    have "(2::rat) powi 0 < 2 powi 1024" by (rule power_int_strict_increasing) simp_all
    then show ?thesis by simp
  qed
  have "roundPositive ?q = Fin 1"
    unfolding roundPositive_def e Let_def using r small
    by (simp add: power_int_minus)
  then show ?thesis using pos by (simp add: toBinary64_def)
qed

lemma Number_rounds_to_1: "Number ''1.0000000000000000001'' = Fin 1"
proof -
  have "Number ''1.0000000000000000001'' = toBinary64 (1 + 1 / 10 ^ 19)"
    by (simp add: Number_def trim_def isWhiteSpace_def nonDecimalBase_def unsignedDecimal_def
        isDigitOf_def digitValue_def digitsValue_def)
  then show ?thesis by (simp only: toBinary64_just_above_1)
qed

text \<open>Overflow and underflow: \<open>1e400\<close> is \<open>Infinity\<close> and \<open>1e-400\<close> is 0.\<close>

lemma roundHalfEven_ge_floor: "\<lfloor>q\<rfloor> \<le> roundHalfEven q"
  by (simp add: roundHalfEven_def Let_def)

lemma roundPositive_overflow:
  assumes "2 powi 1024 \<le> q"
  shows "roundPositive q = PosInfinity"
proof -
  define e where "e = floorLog2 q"
  have pos: "0 < q"
  proof -
    have "(0::rat) < 2 powi 1024" by simp
    then show ?thesis using assms by simp
  qed
  from floorLog2_bounds[OF pos]
  have lo: "2 powi e \<le> q" and hi: "q < 2 powi (e + 1)" by (simp_all add: e_def)
  have "(2::rat) powi 1024 < 2 powi (e + 1)" using assms hi by simp
  then have e: "1024 \<le> e" using powi_less_cancel[of 1024 "e + 1"] by simp
  then have mx: "max e (- 1022) = e" by simp
  have ulp: "(0::rat) < 2 powi (e - 52)" by simp
  have "rat_of_int (2 ^ 52) = 2 powi e / 2 powi (e - 52)"
    by (simp add: power_int_diff[symmetric])
  also have "\<dots> \<le> q / 2 powi (e - 52)"
    using lo ulp by (simp add: divide_right_mono)
  finally have "rat_of_int (2 ^ 52) \<le> q / 2 powi (e - 52)" .
  then have "2 ^ 52 \<le> \<lfloor>q / 2 powi (e - 52)\<rfloor>" by (simp only: le_floor_iff)
  also have "\<dots> \<le> roundHalfEven (q / 2 powi (e - 52))" by (rule roundHalfEven_ge_floor)
  finally have "2 ^ 52 \<le> roundHalfEven (q / 2 powi (e - 52))" .
  then have "rat_of_int (2 ^ 52) \<le> rat_of_int (roundHalfEven (q / 2 powi (e - 52)))"
    by (simp only: of_int_le_iff)
  then have A: "rat_of_int (2 ^ 52) * 2 powi (e - 52)
               \<le> rat_of_int (roundHalfEven (q / 2 powi (e - 52))) * 2 powi (e - 52)"
    using ulp by (simp only: mult_le_cancel_right_pos)
  have B: "rat_of_int (2 ^ 52) * 2 powi (e - 52) = 2 powi e"
  proof -
    have "(2::rat) powi (52 + (e - 52)) = 2 powi 52 * 2 powi (e - 52)"
      by (rule power_int_add) simp
    then show ?thesis by simp
  qed
  have "(2::rat) powi 1024 \<le> 2 powi e" using e by (intro power_int_increasing) simp_all
  also have "\<dots> = rat_of_int (2 ^ 52) * 2 powi (e - 52)" by (rule B[symmetric])
  also have "\<dots> \<le> rat_of_int (roundHalfEven (q / 2 powi (e - 52))) * 2 powi (e - 52)"
    by (rule A)
  finally have D: "2 powi 1024
      \<le> rat_of_int (roundHalfEven (q / 2 powi (e - 52))) * 2 powi (e - 52)" .
  show ?thesis
    unfolding roundPositive_def e_def[symmetric] Let_def mx by (simp only: D if_True)
qed

lemma roundPositive_underflow:
  assumes "0 < q" and "q < 2 powi (- 1075)"
  shows "roundPositive q = Fin 0"
proof -
  define e where "e = floorLog2 q"
  from floorLog2_bounds[OF assms(1)]
  have lo: "2 powi e \<le> q" by (simp add: e_def)
  have "(2::rat) powi e < 2 powi (- 1075)" using lo assms(2) by simp
  then have "e < - 1075" by (rule powi_less_cancel)
  then have mx: "max e (- 1022) = - 1022" by simp
  have ulp: "(0::rat) < 2 powi (- 1074)" by simp
  have "q / 2 powi (- 1074) < 2 powi (- 1075) / 2 powi (- 1074)"
    using assms(2) ulp by (simp only: divide_strict_right_mono)
  also have "(2::rat) powi (- 1075) / 2 powi (- 1074) = 2 powi (- 1075 - (- 1074))"
    by (simp add: power_int_diff)
  also have "\<dots> = 1 / 2" by simp
  finally have half: "q / 2 powi (- 1074) < 1 / 2" .
  have nonneg: "0 \<le> q / 2 powi (- 1074)" using assms(1) by simp
  have "roundHalfEven (q / 2 powi (- 1074)) = 0"
    using nonneg half by (intro roundHalfEven_below_half) simp_all
  then show ?thesis
    unfolding roundPositive_def e_def[symmetric] Let_def mx by simp
qed

lemma Number_1e400: "Number ''1e400'' = PosInfinity"
proof -
  have "Number ''1e400'' = toBinary64 (10 ^ 400)"
    by (simp add: Number_def trim_def isWhiteSpace_def nonDecimalBase_def unsignedDecimal_def
        isDigitOf_def digitValue_def digitsValue_def exponentValue_def allDigits_def scale10_def)
  moreover have "(2::rat) powi 1024 \<le> 10 ^ 400" by simp
  ultimately show ?thesis by (simp add: toBinary64_def roundPositive_overflow)
qed

lemma Number_1e_minus_400: "Number ''1e-400'' = Fin 0"
proof -
  have "Number ''1e-400'' = toBinary64 (1 / 10 ^ 400)"
    by (simp add: Number_def trim_def isWhiteSpace_def nonDecimalBase_def unsignedDecimal_def
        isDigitOf_def digitValue_def digitsValue_def exponentValue_def allDigits_def scale10_def)
  moreover have "(1::rat) / 10 ^ 400 < 2 powi (- 1075)"
    by (simp add: power_int_minus field_simps)
  ultimately show ?thesis by (simp add: toBinary64_def roundPositive_underflow)
qed

lemmas handler_eval =
  getTodoById_def getAllTodos_def createTodo_def updateTodo_def deleteTodo_def
  initial_store_def idEquals_def splice'_def Let_def

section \<open>The claims\<close>

text \<open>
  The spec's operations are the handlers: \<open>list\<close> is \<open>getAllTodos\<close>, \<open>get\<close> is
  \<open>getTodoById\<close>, \<open>create\<close> is \<open>createTodo\<close>, \<open>updatePartial\<close> is \<open>updateTodo\<close>
  and \<open>deleteById\<close> is \<open>deleteTodo\<close>. The only failure the handlers signal is the
  \<open>BadRequestException\<close> of \<open>createTodo\<close>, the spec's \<open>InvalidInput\<close>; a lookup that
  finds nothing returns \<open>null\<close>.
\<close>

subsection \<open>C1: a patch without \<open>isDone\<close>\<close>

text \<open>
  C1 says that \<open>updatePartial\<close> with a patch that omits \<open>isDone\<close> leaves the record's
  \<open>isDone\<close> as it was, and that the empty patch leaves the whole record as it was.
  \<open>updateTodo\<close> writes \<open>existingTodo.isDone = true\<close> before it looks at the patch
  (the source marks the line as a bug). On the seed store record 1 is pending;
  \<open>updateTodo("1", {})\<close> returns it as done and stores it so.
\<close>

theorem updateTodo_empty_patch_sets_isDone:
  "getTodoById initial_store ''1''
     = Some \<lparr>id' = 1, description = ''Buy groceries'', isDone = False\<rparr>
   \<and> updateTodo initial_store ''1'' (Some \<lparr>u_description = None, u_isDone = None\<rparr>)
     = (Inr (Some \<lparr>id' = 1, description = ''Buy groceries'', isDone = True\<rparr>),
        \<lparr>todos =
           [\<lparr>id' = 1, description = ''Buy groceries'', isDone = True\<rparr>,
            \<lparr>id' = 2, description = ''Finish NestJS project'', isDone = False\<rparr>,
            \<lparr>id' = 3, description = ''Walk the dog'', isDone = True\<rparr>],
         nextId = 4\<rparr>)"
  by (simp add: handler_eval Number_1)

subsection \<open>C2: deleting an identifier that is not in the store\<close>

text \<open>
  C2 says that \<open>deleteById\<close> signals \<open>NotFound\<close> for an identifier that resolves to no
  record, and removes nothing. \<open>deleteTodo\<close> passes the result of \<open>findIndex\<close> to
  \<open>splice\<close> without testing it for \<open>-1\<close> (the source marks the line as buggy). On
  the seed store no record has the identifier 99; \<open>deleteTodo("99")\<close> returns the
  success message and record 3, the last one, is gone.
\<close>

theorem deleteTodo_unknown_id_removes_record:
  "getTodoById initial_store ''99'' = None
   \<and> deleteTodo initial_store ''99''
     = (''Todo with ID 99 successfully deleted.'',
        \<lparr>todos =
           [\<lparr>id' = 1, description = ''Buy groceries'', isDone = False\<rparr>,
            \<lparr>id' = 2, description = ''Finish NestJS project'', isDone = False\<rparr>],
         nextId = 4\<rparr>)"
  by (simp add: handler_eval Number_99)

subsection \<open>C3: an identifier string that is not a number\<close>

text \<open>
  C3 says that \<open>get\<close>, \<open>updatePartial\<close> and \<open>deleteById\<close> signal \<open>InvalidIdentifier\<close>
  for a string that does not parse to an identifier. The handlers call \<open>Number(id)\<close>
  and use the result with no test for \<open>NaN\<close> (the source notes the missing check in
  all three). For the string \<open>abc\<close> the value is \<open>NaN\<close>: \<open>getTodoById\<close> and
  \<open>updateTodo\<close> return \<open>null\<close>, and \<open>deleteTodo\<close> returns the success message and
  removes the last record.
\<close>

theorem unparseable_id_is_not_rejected:
  "Number ''abc'' = NaN
   \<and> getTodoById initial_store ''abc'' = None
   \<and> updateTodo initial_store ''abc'' (Some \<lparr>u_description = None, u_isDone = Some True\<rparr>)
     = (Inr None, initial_store)
   \<and> deleteTodo initial_store ''abc''
     = (''Todo with ID abc successfully deleted.'',
        \<lparr>todos =
           [\<lparr>id' = 1, description = ''Buy groceries'', isDone = False\<rparr>,
            \<lparr>id' = 2, description = ''Finish NestJS project'', isDone = False\<rparr>],
         nextId = 4\<rparr>)"
  by (simp add: handler_eval Number_abc)

subsection \<open>C4: the identifiers that create hands out\<close>

text \<open>
  C4: for every sequence of requests from the initial store, the identifiers
  returned by the successful creates are strictly increasing in the order of creation,
  hence pairwise distinct; the counter never decreases; and an identifier that create
  returns later is not below the counter, was not returned by an earlier create and is
  not the identifier of a record that is in the store now. The last part covers a
  create after a delete: the record that a delete removes was in the store before it.
\<close>

theorem created_ids_strictly_increasing:
  "sorted_wrt (<) (createdIds initial_store reqs)
   \<and> distinct (createdIds initial_store reqs)
   \<and> nextId (run initial_store reqs) \<le> nextId (run initial_store (reqs @ reqs'))
   \<and> (\<forall>k\<in>set (createdIds (run initial_store reqs) reqs').
         nextId (run initial_store reqs) \<le> k
         \<and> k \<notin> set (createdIds initial_store reqs)
         \<and> k \<notin> id' ` set (todos (run initial_store reqs)))"
proof (intro conjI ballI)
  show inc: "sorted_wrt (<) (createdIds initial_store reqs)" by (rule createdIds_sorted)
  then show "distinct (createdIds initial_store reqs)" by (simp add: strict_sorted_iff)
  show "nextId (run initial_store reqs) \<le> nextId (run initial_store (reqs @ reqs'))"
    by (simp add: run_append nextId_run)
next
  fix k assume "k \<in> set (createdIds (run initial_store reqs) reqs')"
  from createdIds_bounds[OF this] show lower: "nextId (run initial_store reqs) \<le> k" by simp
  show "k \<notin> set (createdIds initial_store reqs)"
    using lower createdIds_bounds[of k initial_store reqs] by auto
  show "k \<notin> id' ` set (todos (run initial_store reqs))"
    using lower reachable_invariant[of reqs] by auto
qed

text \<open>
  At the requests create, delete of identifier 4, create: the creates return 4 and 5,
  and 5 is neither an earlier identifier nor in the store.
\<close>

lemma run_create_a:
  "run initial_store [CreateTodo (Some \<lparr>c_description = Some ''a''\<rparr>)]
     = \<lparr>todos =
          [\<lparr>id' = 1, description = ''Buy groceries'', isDone = False\<rparr>,
           \<lparr>id' = 2, description = ''Finish NestJS project'', isDone = False\<rparr>,
           \<lparr>id' = 3, description = ''Walk the dog'', isDone = True\<rparr>,
           \<lparr>id' = 4, description = ''a'', isDone = False\<rparr>],
        nextId = 5\<rparr>"
  by (simp add: createTodo_def initial_store_def Let_def)

lemma run_create_a_delete_4:
  "run initial_store [CreateTodo (Some \<lparr>c_description = Some ''a''\<rparr>), DeleteTodo ''4'']
     = \<lparr>todos =
          [\<lparr>id' = 1, description = ''Buy groceries'', isDone = False\<rparr>,
           \<lparr>id' = 2, description = ''Finish NestJS project'', isDone = False\<rparr>,
           \<lparr>id' = 3, description = ''Walk the dog'', isDone = True\<rparr>],
        nextId = 5\<rparr>"
proof -
  have "run initial_store [CreateTodo (Some \<lparr>c_description = Some ''a''\<rparr>), DeleteTodo ''4'']
          = handle (run initial_store [CreateTodo (Some \<lparr>c_description = Some ''a''\<rparr>)])
              (DeleteTodo ''4'')"
    by simp
  also have "\<dots> = \<lparr>todos =
          [\<lparr>id' = 1, description = ''Buy groceries'', isDone = False\<rparr>,
           \<lparr>id' = 2, description = ''Finish NestJS project'', isDone = False\<rparr>,
           \<lparr>id' = 3, description = ''Walk the dog'', isDone = True\<rparr>],
        nextId = 5\<rparr>"
    unfolding run_create_a
    by (simp add: deleteTodo_def Number_4 idEquals_def splice'_def)
  finally show ?thesis .
qed

theorem created_ids_strictly_increasing_witness:
  "createdIds initial_store
     [CreateTodo (Some \<lparr>c_description = Some ''a''\<rparr>), DeleteTodo ''4'',
      CreateTodo (Some \<lparr>c_description = Some ''b''\<rparr>)] = [4, 5]
   \<and> 5 \<in> set (createdIds
        (run initial_store [CreateTodo (Some \<lparr>c_description = Some ''a''\<rparr>), DeleteTodo ''4''])
        [CreateTodo (Some \<lparr>c_description = Some ''b''\<rparr>)])
   \<and> 5 \<notin> set (createdIds initial_store
        [CreateTodo (Some \<lparr>c_description = Some ''a''\<rparr>), DeleteTodo ''4''])
   \<and> 5 \<notin> id' ` set (todos (run initial_store
        [CreateTodo (Some \<lparr>c_description = Some ''a''\<rparr>), DeleteTodo ''4'']))"
proof -
  have a: "createdIds initial_store
     [CreateTodo (Some \<lparr>c_description = Some ''a''\<rparr>), DeleteTodo ''4'',
      CreateTodo (Some \<lparr>c_description = Some ''b''\<rparr>)]
     = 4 # createdIds
        (run initial_store [CreateTodo (Some \<lparr>c_description = Some ''a''\<rparr>), DeleteTodo ''4''])
        [CreateTodo (Some \<lparr>c_description = Some ''b''\<rparr>)]"
    by (simp add: createTodo_def initial_store_def Let_def)
  have b: "createdIds
        (run initial_store [CreateTodo (Some \<lparr>c_description = Some ''a''\<rparr>), DeleteTodo ''4''])
        [CreateTodo (Some \<lparr>c_description = Some ''b''\<rparr>)] = [5]"
    unfolding run_create_a_delete_4 by (simp add: createTodo_def Let_def)
  have c: "5 \<in> set (createdIds
        (run initial_store [CreateTodo (Some \<lparr>c_description = Some ''a''\<rparr>), DeleteTodo ''4''])
        [CreateTodo (Some \<lparr>c_description = Some ''b''\<rparr>)])"
    by (simp only: b) simp
  from created_ids_strictly_increasing
         [of "[CreateTodo (Some \<lparr>c_description = Some ''a''\<rparr>), DeleteTodo ''4'']"
             "[CreateTodo (Some \<lparr>c_description = Some ''b''\<rparr>)]"] c
  have "5 \<notin> set (createdIds initial_store
        [CreateTodo (Some \<lparr>c_description = Some ''a''\<rparr>), DeleteTodo ''4''])
   \<and> 5 \<notin> id' ` set (todos (run initial_store
        [CreateTodo (Some \<lparr>c_description = Some ''a''\<rparr>), DeleteTodo ''4'']))"
    by blast
  with a b c show ?thesis by (simp only:) simp
qed

subsection \<open>C5: create with a description\<close>

text \<open>
  C5: for every non-empty description, \<open>createTodo\<close> takes the identifier from the
  counter, builds the record with that identifier, the description and \<open>isDone = false\<close>,
  appends it after the records that were there, returns it, and leaves the counter one
  higher.
\<close>

theorem createTodo_appends_new_record:
  "d \<noteq> [] \<Longrightarrow>
   createTodo s (Some \<lparr>c_description = Some d\<rparr>)
     = (Inr \<lparr>id' = nextId s, description = d, isDone = False\<rparr>,
        s\<lparr>todos := todos s @ [\<lparr>id' = nextId s, description = d, isDone = False\<rparr>],
          nextId := nextId s + 1\<rparr>)"
  by (simp add: createTodo_def Let_def)

theorem createTodo_appends_new_record_witness:
  "''y'' \<noteq> []
   \<and> createTodo initial_store (Some \<lparr>c_description = Some ''y''\<rparr>)
     = (Inr \<lparr>id' = 4, description = ''y'', isDone = False\<rparr>,
        \<lparr>todos =
           [\<lparr>id' = 1, description = ''Buy groceries'', isDone = False\<rparr>,
            \<lparr>id' = 2, description = ''Finish NestJS project'', isDone = False\<rparr>,
            \<lparr>id' = 3, description = ''Walk the dog'', isDone = True\<rparr>,
            \<lparr>id' = 4, description = ''y'', isDone = False\<rparr>],
         nextId = 5\<rparr>)"
  using createTodo_appends_new_record[of "''y''" initial_store]
  by (simp add: initial_store_def)

subsection \<open>C6: create without a description\<close>

text \<open>
  C6: in every store, \<open>createTodo\<close> with no body, with no description or with the
  empty description throws the \<open>BadRequestException\<close> and leaves the array and the
  counter as they were.
\<close>

theorem createTodo_rejects_empty_description:
  "createTodo s None = (Inl (BadRequestException ''Description cannot be empty''), s)
   \<and> createTodo s (Some \<lparr>c_description = None\<rparr>)
       = (Inl (BadRequestException ''Description cannot be empty''), s)
   \<and> createTodo s (Some \<lparr>c_description = Some []\<rparr>)
       = (Inl (BadRequestException ''Description cannot be empty''), s)"
  by (simp add: createTodo_def)

subsection \<open>C7: a patch with the empty description\<close>

text \<open>
  C7 says that no record reachable through \<open>list\<close> or \<open>get\<close> has an empty
  description, and that \<open>updatePartial\<close> rejects a patch whose description is empty.
  \<open>updateTodo\<close> tests the description for \<open>undefined\<close> only, where \<open>createTodo\<close> also
  rejects the empty string (the source notes the missing validation of the update
  body). On the seed store \<open>updateTodo("1", {description: ""})\<close> succeeds and
  \<open>getTodoById("1")\<close> then returns a record with the empty description.
\<close>

theorem updateTodo_accepts_empty_description:
  "updateTodo initial_store ''1'' (Some \<lparr>u_description = Some [], u_isDone = None\<rparr>)
     = (Inr (Some \<lparr>id' = 1, description = [], isDone = True\<rparr>),
        \<lparr>todos =
           [\<lparr>id' = 1, description = [], isDone = True\<rparr>,
            \<lparr>id' = 2, description = ''Finish NestJS project'', isDone = False\<rparr>,
            \<lparr>id' = 3, description = ''Walk the dog'', isDone = True\<rparr>],
         nextId = 4\<rparr>)
   \<and> getTodoById
        (run initial_store [UpdateTodo ''1'' (Some \<lparr>u_description = Some [], u_isDone = None\<rparr>)])
        ''1''
     = Some \<lparr>id' = 1, description = [], isDone = True\<rparr>"
  by (simp add: handler_eval Number_1)

subsection \<open>C8: the scenario on the seed store\<close>

text \<open>
  C8 is the scenario: \<open>updatePartial(2, {description: "x"})\<close> makes record 2
  \<open>{id: 2, description: "x"}\<close> with \<open>isDone\<close> as before, \<open>deleteById(2)\<close> leaves the
  identifiers 1 and 3 in this order, and the next create returns the identifier 4. The
  handlers do the second and the third step. In the first, record 2 is pending in
  the seed store and \<open>updateTodo\<close> returns it as done: the assignment that C1 is about.
\<close>

theorem seed_scenario_sets_isDone:
  "getTodoById initial_store ''2''
     = Some \<lparr>id' = 2, description = ''Finish NestJS project'', isDone = False\<rparr>
   \<and> fst (updateTodo initial_store ''2'' (Some \<lparr>u_description = Some ''x'', u_isDone = None\<rparr>))
     = Inr (Some \<lparr>id' = 2, description = ''x'', isDone = True\<rparr>)
   \<and> map id' (getAllTodos
        (run initial_store
           [UpdateTodo ''2'' (Some \<lparr>u_description = Some ''x'', u_isDone = None\<rparr>),
            DeleteTodo ''2'']))
     = [1, 3]
   \<and> fst (createTodo
        (run initial_store
           [UpdateTodo ''2'' (Some \<lparr>u_description = Some ''x'', u_isDone = None\<rparr>),
            DeleteTodo ''2''])
        (Some \<lparr>c_description = Some ''y''\<rparr>))
     = Inr \<lparr>id' = 4, description = ''y'', isDone = False\<rparr>"
  by (simp add: handler_eval Number_2)

subsection \<open>C9: the patch \<open>{isDone: true}\<close>\<close>

text \<open>
  C9: in every store reached from the initial one, for every record \<open>t\<close> in it and
  every string whose number is the identifier of \<open>t\<close>, \<open>updateTodo\<close> with the patch
  \<open>{isDone: true}\<close> returns \<open>t\<close> with \<open>isDone\<close> set and the identifier and the
  description as they were; in the array \<open>t\<close> is replaced by that record, every other
  record stays as it was and where it was, and the counter is not touched.
\<close>

theorem updateTodo_isDone_true_changes_only_isDone:
  assumes "t \<in> set (todos (run initial_store reqs))"
    and "Number ident = Fin (rat_of_int (id' t))"
  shows "updateTodo (run initial_store reqs) ident
             (Some \<lparr>u_description = None, u_isDone = Some True\<rparr>)
           = (Inr (Some (t\<lparr>isDone := True\<rparr>)),
              (run initial_store reqs)
                \<lparr>todos := map (\<lambda>u. if u = t then t\<lparr>isDone := True\<rparr> else u)
                            (todos (run initial_store reqs))\<rparr>)"
proof -
  have "distinct (map id' (todos (run initial_store reqs)))"
    using reachable_invariant[of reqs] by simp
  then show ?thesis using assms by (rule updateTodo_without_description) simp
qed

theorem updateTodo_isDone_true_changes_only_isDone_witness:
  "\<lparr>id' = 2, description = ''Finish NestJS project'', isDone = False\<rparr>
     \<in> set (todos (run initial_store []))
   \<and> Number ''2'' = Fin 2
   \<and> updateTodo initial_store ''2'' (Some \<lparr>u_description = None, u_isDone = Some True\<rparr>)
     = (Inr (Some \<lparr>id' = 2, description = ''Finish NestJS project'', isDone = True\<rparr>),
        \<lparr>todos =
           [\<lparr>id' = 1, description = ''Buy groceries'', isDone = False\<rparr>,
            \<lparr>id' = 2, description = ''Finish NestJS project'', isDone = True\<rparr>,
            \<lparr>id' = 3, description = ''Walk the dog'', isDone = True\<rparr>],
         nextId = 4\<rparr>)"
proof -
  let ?t = "\<lparr>id' = 2, description = ''Finish NestJS project'', isDone = False\<rparr>"
  have m: "?t \<in> set (todos (run initial_store []))" by (simp add: initial_store_def)
  have n: "Number ''2'' = Fin (rat_of_int (id' ?t))" by (simp add: Number_2)
  from updateTodo_isDone_true_changes_only_isDone[OF m n] m n
  show ?thesis by (simp add: initial_store_def)
qed

subsection \<open>C10: what \<open>deleteTodo\<close> does when nothing matches\<close>

text \<open>
  C10: for every store and every string whose number, \<open>Number(id)\<close> as a binary64
  value, is the identifier of no record,
  \<open>deleteTodo\<close> returns the success message, and the array loses its last record
  (\<open>findIndex\<close> gives \<open>-1\<close>, and \<open>splice(-1, 1)\<close> removes the last element). On the
  empty array nothing is removed: \<open>butlast [] = []\<close>.
\<close>

theorem deleteTodo_no_match_removes_last:
  assumes "\<forall>t\<in>set (todos s). \<not> idEquals (Number ident) t"
  shows "deleteTodo s ident
           = (''Todo with ID '' @ ident @ '' successfully deleted.'',
              s\<lparr>todos := butlast (todos s)\<rparr>)"
proof -
  have "findIndex (idEquals (Number ident)) (todos s) = - 1"
    using assms by (simp add: findIndex_none)
  then show ?thesis by (simp add: deleteTodo_def Let_def splice_minus_one)
qed

theorem deleteTodo_no_match_removes_last_witness:
  "findIndex (idEquals (Number ''7'')) (todos initial_store) = - 1
   \<and> deleteTodo initial_store ''7''
     = (''Todo with ID 7 successfully deleted.'',
        \<lparr>todos =
           [\<lparr>id' = 1, description = ''Buy groceries'', isDone = False\<rparr>,
            \<lparr>id' = 2, description = ''Finish NestJS project'', isDone = False\<rparr>],
         nextId = 4\<rparr>)"
proof -
  have h: "\<forall>t\<in>set (todos initial_store). \<not> idEquals (Number ''7'') t"
    by (simp add: initial_store_def idEquals_def Number_7)
  have f: "findIndex (idEquals (Number ''7'')) (todos initial_store) = - 1"
    using h by (simp only: findIndex_none)
  from deleteTodo_no_match_removes_last[OF h] f show ?thesis
    by (simp add: initial_store_def)
qed

text \<open>
  The hypothesis is about the binary64 value of the string. A string whose value
  only rounds to an identifier does match: \<open>Number("1.0000000000000000001")\<close> is 1,
  and \<open>deleteTodo\<close> removes record 1, not the last record.
\<close>

lemma deleteTodo_rounded_id:
  "findIndex (idEquals (Number ''1.0000000000000000001'')) (todos initial_store) = 0
   \<and> deleteTodo initial_store ''1.0000000000000000001''
     = (''Todo with ID 1.0000000000000000001 successfully deleted.'',
        \<lparr>todos =
           [\<lparr>id' = 2, description = ''Finish NestJS project'', isDone = False\<rparr>,
            \<lparr>id' = 3, description = ''Walk the dog'', isDone = True\<rparr>],
         nextId = 4\<rparr>)"
  by (simp add: handler_eval Number_rounds_to_1)

end
